theory Spec2Isabelle
  imports Complex_Main
begin

section \<open>Circle packing: the embedding of circlepack.py\<close>

text \<open>
  The program covers a canvas with circles that do not overlap, in two passes. The model
  follows \<^verbatim>\<open>non_overlapping_circle_packed_image\<close> and its nested helpers.

  \<^item> Python integers are \<^typ>\<open>int\<close>; the float arithmetic of the source (the square root
    in \<^verbatim>\<open>circles_overlap\<close>, the target count, the average radius) is modelled over
    \<^typ>\<open>real\<close>, that is, without rounding error.
  \<^item> The module \<^verbatim>\<open>random\<close> is a stream of naturals \<open>g\<close> read at a position; every call
    consumes one element. \<^verbatim>\<open>randint a b\<close> can return every value of \<open>[a, b]\<close> and raises
    ValueError on an empty range; \<^verbatim>\<open>choices\<close> can return every element, since all five
    weights are positive.
  \<^item> The closures share \<^verbatim>\<open>placed_circles\<close>, \<^verbatim>\<open>circles_placed\<close> and
    \<^verbatim>\<open>total_attempts\<close>: these are the fields of the state that the loops pass on.
  \<^item> An exception is a value \<open>Inl e\<close>.
  \<^item> Drawing on the canvas, the outline colour and the progress lines write to PIL and to
    the console only and are left out; the statistics that are printed at the end are kept
    in the result next to the value the function returns.
\<close>

subsection \<open>Data\<close>

type_synonym circle = "int \<times> int \<times> int"

type_synonym pixel = "nat \<times> nat \<times> nat"

type_synonym color = "int \<times> int \<times> int"

type_synonym rand_source = "nat \<Rightarrow> nat"

datatype error = ValueError_empty_range | ValueError_empty_sequence | ZeroDivisionError

record config =
  width :: int
  height :: int
  min_radius :: int
  max_radius :: int
  density_factor :: real
  max_attempts :: int

record state =
  placed_circles :: "circle list"
  circles_placed :: int
  total_attempts :: int
  rng_pos :: nat

record size_stats =
  stats_min :: int
  stats_max :: int
  stats_avg :: real
  stats_total_circles :: nat

record run_result =
  returned :: string
  printed_stats :: size_stats
  final_state :: state

subsection \<open>The random source\<close>

definition randint :: "rand_source \<Rightarrow> nat \<Rightarrow> int \<Rightarrow> int \<Rightarrow> error + (int \<times> nat)" where
  "randint g p a b =
     (if b < a then Inl ValueError_empty_range
      else Inr (a + int (g p mod nat (b - a + 1)), Suc p))"

definition choices :: "rand_source \<Rightarrow> nat \<Rightarrow> 'a list \<Rightarrow> 'a \<times> nat" where
  "choices g p population = (population ! (g p mod length population), Suc p)"

subsection \<open>The colour sampler\<close>

definition py_slice :: "'a list \<Rightarrow> int \<Rightarrow> int \<Rightarrow> 'a list" where
  "py_slice xs start stop =
     (let n = int (length xs);
          a = (if start < 0 then max 0 (start + n) else min start n);
          b = (if stop < 0 then max 0 (stop + n) else min stop n)
      in take (nat (b - a)) (drop (nat a) xs))"

definition get_avg_color :: "pixel list list \<Rightarrow> int \<Rightarrow> int \<Rightarrow> int \<Rightarrow> int \<Rightarrow> int \<Rightarrow> color" where
  "get_avg_color img_np w h x y r =
     (let x_min = max 0 (x - r);
          x_max = min w (x + r);
          y_min = max 0 (y - r);
          y_max = min h (y + r);
          region = concat (map (\<lambda>row. py_slice row x_min x_max) (py_slice img_np y_min y_max))
      in if region = [] then (128, 128, 128)
         else (int (sum_list (map fst region) div length region),
               int (sum_list (map (fst \<circ> snd) region) div length region),
               int (sum_list (map (snd \<circ> snd) region) div length region)))"

text \<open>
  The wording of the specification: the pixels of the bounding box of the circle, clipped
  to the canvas.
\<close>

definition clipped_box :: "pixel list list \<Rightarrow> int \<Rightarrow> int \<Rightarrow> int \<Rightarrow> int \<Rightarrow> int \<Rightarrow> pixel list" where
  "clipped_box img_np w h x y r =
     concat (map (\<lambda>i. map (\<lambda>j. img_np ! i ! j) [nat (max 0 (x - r))..<nat (min w (x + r))])
       [nat (max 0 (y - r))..<nat (min h (y + r))])"

definition well_formed :: "pixel list list \<Rightarrow> int \<Rightarrow> int \<Rightarrow> bool" where
  "well_formed img_np w h =
     (int (length img_np) = h \<and> list_all (\<lambda>row. int (length row) = w) img_np)"

subsection \<open>The collision index\<close>

definition circles_overlap :: "int \<Rightarrow> int \<Rightarrow> int \<Rightarrow> int \<Rightarrow> int \<Rightarrow> int \<Rightarrow> int \<Rightarrow> bool" where
  "circles_overlap x1 y1 r1 x2 y2 r2 buffer =
     (sqrt (of_int ((x2 - x1)\<^sup>2 + (y2 - y1)\<^sup>2)) < of_int (r1 + r2 + buffer))"

fun overlaps_existing :: "int \<Rightarrow> int \<Rightarrow> int \<Rightarrow> circle list \<Rightarrow> bool" where
  "overlaps_existing x y r [] = False"
| "overlaps_existing x y r ((existing_x, existing_y, existing_r) # rest) =
     (if circles_overlap x y r existing_x existing_y existing_r 2 then True
      else overlaps_existing x y r rest)"

definition can_place_circle :: "config \<Rightarrow> circle list \<Rightarrow> int \<Rightarrow> int \<Rightarrow> int \<Rightarrow> bool" where
  "can_place_circle c placed x y r =
     (if x - r < 0 \<or> x + r > width c \<or> y - r < 0 \<or> y + r > height c then False
      else \<not> overlaps_existing x y r placed)"

subsection \<open>The size sampler\<close>

definition size_ranges :: "int \<Rightarrow> int \<Rightarrow> (int \<times> int) list" where
  "size_ranges mn mx =
     [(mn, mn + 3), (mn + 3, mn + 8), (mn + 8, mn + 13), (mn + 13, mn + 18), (mn + 18, mx)]"

definition get_varied_radius :: "rand_source \<Rightarrow> nat \<Rightarrow> config \<Rightarrow> error + (int \<times> nat)" where
  "get_varied_radius g p c =
     (case choices g p (size_ranges (min_radius c) (max_radius c)) of
        (chosen_range, p1) \<Rightarrow>
          randint g p1 (fst chosen_range) (min (snd chosen_range) (max_radius c)))"

subsection \<open>The packing engine\<close>

definition py_int :: "real \<Rightarrow> int" where
  "py_int v = (if 0 \<le> v then \<lfloor>v\<rfloor> else \<lceil>v\<rceil>)"

definition target_circles :: "config \<Rightarrow> error + int" where
  "target_circles c =
     (let avg_circle_area = pi * (of_int (min_radius c + max_radius c) / 2)\<^sup>2;
          image_area = width c * height c
      in if avg_circle_area = 0 then Inl ZeroDivisionError
         else Inr (py_int ((of_int image_area / avg_circle_area) * density_factor c)))"

definition place :: "state \<Rightarrow> int \<Rightarrow> int \<Rightarrow> int \<Rightarrow> state" where
  "place s x y r =
     s\<lparr>placed_circles := placed_circles s @ [(x, y, r)], circles_placed := circles_placed s + 1\<rparr>"

definition phase1_body :: "rand_source \<Rightarrow> config \<Rightarrow> state \<Rightarrow> error + state" where
  "phase1_body g c s =
     (case get_varied_radius g (rng_pos s) c of
        Inl e \<Rightarrow> Inl e
      | Inr (r, p1) \<Rightarrow>
     (case randint g p1 r (width c - r) of
        Inl e \<Rightarrow> Inl e
      | Inr (x, p2) \<Rightarrow>
     (case randint g p2 r (height c - r) of
        Inl e \<Rightarrow> Inl e
      | Inr (y, p3) \<Rightarrow>
          (let s1 = s\<lparr>rng_pos := p3\<rparr>;
               s2 = (if can_place_circle c (placed_circles s1) x y r then place s1 x y r else s1)
           in Inr (s2\<lparr>total_attempts := total_attempts s2 + 1\<rparr>)))))"

definition phase2_body :: "rand_source \<Rightarrow> config \<Rightarrow> state \<Rightarrow> error + state" where
  "phase2_body g c s =
     (case randint g (rng_pos s) (min_radius c) (min_radius c + 5) of
        Inl e \<Rightarrow> Inl e
      | Inr (r, p1) \<Rightarrow>
     (case randint g p1 r (width c - r) of
        Inl e \<Rightarrow> Inl e
      | Inr (x, p2) \<Rightarrow>
     (case randint g p2 r (height c - r) of
        Inl e \<Rightarrow> Inl e
      | Inr (y, p3) \<Rightarrow>
          (let s1 = s\<lparr>rng_pos := p3\<rparr>
           in Inr (if can_place_circle c (placed_circles s1) x y r then place s1 x y r else s1)))))"

function phase1 :: "rand_source \<Rightarrow> config \<Rightarrow> int \<Rightarrow> state \<Rightarrow> error + state" where
  "phase1 g c target s =
     (if circles_placed s < target \<and> total_attempts s < target * max_attempts c
      then (case phase1_body g c s of Inl e \<Rightarrow> Inl e | Inr s' \<Rightarrow> phase1 g c target s')
      else Inr s)"
  by pat_completeness auto
termination
  by (relation "measure (\<lambda>(g, c, target, s). nat (target * max_attempts c - total_attempts s))")
     (auto simp: phase1_body_def place_def Let_def split: sum.splits prod.splits if_splits)

declare phase1.simps [simp del]

fun phase2 :: "rand_source \<Rightarrow> config \<Rightarrow> nat \<Rightarrow> state \<Rightarrow> error + state" where
  "phase2 g c 0 s = Inr s"
| "phase2 g c (Suc n) s =
     (case phase2_body g c s of Inl e \<Rightarrow> Inl e | Inr s' \<Rightarrow> phase2 g c n s')"

declare phase2.simps [simp del]

definition compute_stats :: "int list \<Rightarrow> error + size_stats" where
  "compute_stats sizes =
     (if sizes = [] then Inl ValueError_empty_sequence
      else Inr \<lparr>stats_min = Min (set sizes), stats_max = Max (set sizes),
                stats_avg = of_int (sum_list sizes) / of_nat (length sizes),
                stats_total_circles = length sizes\<rparr>)"

definition initial_state :: state where
  "initial_state = \<lparr>placed_circles = [], circles_placed = 0, total_attempts = 0, rng_pos = 0\<rparr>"

definition non_overlapping_circle_packed_image ::
  "rand_source \<Rightarrow> config \<Rightarrow> string \<Rightarrow> error + run_result" where
  "non_overlapping_circle_packed_image g c output_path =
     (case target_circles c of
        Inl e \<Rightarrow> Inl e
      | Inr target \<Rightarrow>
     (case phase1 g c target initial_state of
        Inl e \<Rightarrow> Inl e
      | Inr s1 \<Rightarrow>
     (case phase2 g c (nat (target div 2)) s1 of
        Inl e \<Rightarrow> Inl e
      | Inr s2 \<Rightarrow>
     (case compute_stats (map (\<lambda>(x, y, r). r) (placed_circles s2)) of
        Inl e \<Rightarrow> Inl e
      | Inr st \<Rightarrow> Inr \<lparr>returned = output_path, printed_stats = st, final_state = s2\<rparr>))))"


subsection \<open>The invariants of the placed set\<close>

definition no_overlap :: "circle list \<Rightarrow> bool" where
  "no_overlap ps =
     (\<forall>i<length ps. \<forall>j<length ps. i \<noteq> j \<longrightarrow>
        (case ps ! i of (x1, y1, r1) \<Rightarrow> case ps ! j of (x2, y2, r2) \<Rightarrow>
           \<not> circles_overlap x1 y1 r1 x2 y2 r2 2))"

definition in_bounds :: "config \<Rightarrow> circle list \<Rightarrow> bool" where
  "in_bounds c ps =
     list_all (\<lambda>(x, y, r). r \<le> x \<and> x \<le> width c - r \<and> r \<le> y \<and> y \<le> height c - r) ps"

subsection \<open>Concrete configurations and random sources\<close>

text \<open>The scenario of the specification: a 100 x 100 canvas with radii from 5 to 10.\<close>

definition scenario_config :: config where
  "scenario_config = \<lparr>width = 100, height = 100, min_radius = 5, max_radius = 10,
     density_factor = 1, max_attempts = 50\<rparr>"

text \<open>The default parameters on canvases of 30 x 30, 40 x 40 and 10 x 10 pixels.\<close>

definition small_config :: config where
  "small_config = \<lparr>width = 30, height = 30, min_radius = 3, max_radius = 25,
     density_factor = 3 / 2, max_attempts = 50\<rparr>"

definition narrow_config :: config where
  "narrow_config = \<lparr>width = 40, height = 40, min_radius = 3, max_radius = 25,
     density_factor = 3 / 2, max_attempts = 50\<rparr>"

definition tiny_canvas_config :: config where
  "tiny_canvas_config = \<lparr>width = 10, height = 10, min_radius = 3, max_radius = 25,
     density_factor = 3 / 2, max_attempts = 50\<rparr>"

text \<open>Two configurations that the specification calls invalid.\<close>

definition equal_radius_config :: config where
  "equal_radius_config = \<lparr>width = 12, height = 12, min_radius = 5, max_radius = 5,
     density_factor = 1, max_attempts = 50\<rparr>"

definition inverted_config :: config where
  "inverted_config = \<lparr>width = 12, height = 12, min_radius = 6, max_radius = 5,
     density_factor = 1, max_attempts = 50\<rparr>"

text \<open>A random source that replays a finite tape and then yields 0.\<close>

definition tape_source :: "nat list \<Rightarrow> rand_source" where
  "tape_source xs = (\<lambda>i. if i < length xs then xs ! i else 0)"

definition small_tape :: "nat list" where
  "small_tape = [0, 0, 0, 0,  0, 0, 0, 0,  0, 0, 20, 20,  1, 18, 0]"

definition other_tape :: "nat list" where
  "other_tape = [0, 0, 0, 0,  0, 0, 0, 0,  0, 0, 20, 20,  0, 18, 0]"

definition small_result :: run_result where
  "small_result =
     \<lparr>returned = ''out.jpg'',
      printed_stats = \<lparr>stats_min = 3, stats_max = 4, stats_avg = 10 / 3,
                         stats_total_circles = 3\<rparr>,
      final_state = \<lparr>placed_circles = [(3, 3, 3), (23, 23, 3), (22, 4, 4)],
                       circles_placed = 3, total_attempts = 3, rng_pos = 15\<rparr>\<rparr>"

definition other_result :: run_result where
  "other_result =
     \<lparr>returned = ''out.jpg'',
      printed_stats = \<lparr>stats_min = 3, stats_max = 3, stats_avg = 3,
                         stats_total_circles = 3\<rparr>,
      final_state = \<lparr>placed_circles = [(3, 3, 3), (23, 23, 3), (21, 3, 3)],
                       circles_placed = 3, total_attempts = 3, rng_pos = 15\<rparr>\<rparr>"

definition black_image :: "pixel list list" where
  "black_image = [[(0, 0, 0), (0, 0, 0)], [(0, 0, 0), (0, 0, 0)]]"

definition sample_image :: "pixel list list" where
  "sample_image = [[(10, 20, 30), (20, 30, 40), (30, 40, 50)],
                   [(40, 50, 60), (50, 60, 71), (61, 70, 80)]]"

section \<open>Auxiliary facts\<close>

subsection \<open>Bounds on pi\<close>

lemma cubic_mono:
  fixes a b :: real
  assumes "0 \<le> a" "a \<le> b" "b \<le> 1"
  shows "a - a^3/6 \<le> b - b^3/6"
proof -
  have "a^2 + a*b + b^2 \<le> 3"
  proof -
    have "a^2 \<le> 1" using assms by (simp add: power_le_one)
    moreover have "b^2 \<le> 1" using assms by (simp add: power_le_one)
    moreover have "a*b \<le> 1" using assms by (simp add: mult_le_one)
    ultimately show ?thesis by linarith
  qed
  then have "0 \<le> (b - a) * (1 - (a^2 + a*b + b^2)/6)"
    using assms by (intro mult_nonneg_nonneg) auto
  also have "(b - a) * (1 - (a^2 + a*b + b^2)/6) = (b - b^3/6) - (a - a^3/6)"
    by (simp add: field_simps power2_eq_square power3_eq_cube)
  finally show ?thesis by simp
qed

lemma sin_cubic: "\<bar>sin (x::real) - (x - x^3/6)\<bar> \<le> \<bar>x\<bar>^5 / 120"
proof -
  have "(\<Sum>m<5. sin_coeff m * x ^ m) = x - x^3/6"
    by (simp add: eval_nat_numeral sin_coeff_Suc cos_coeff_Suc)
  moreover have "inverse (fact 5) * \<bar>x\<bar>^5 = \<bar>x\<bar>^5 / 120"
  proof -
    have "(fact 5 :: real) = 120" by (simp add: fact_numeral)
    then show ?thesis by simp
  qed
  ultimately show ?thesis using Maclaurin_sin_bound [of x 5] by (simp only:)
qed

lemma pi_bounds: "312 / 100 < pi" "pi < 317 / 100"
proof -
  define x where "x = pi / 6"
  have x0: "1/3 \<le> x" "x \<le> 2/3" using pi_ge_two pi_less_4 by (simp_all add: x_def)
  have s: "sin x = 1/2" by (simp add: x_def sin_30)
  have "\<bar>x\<bar>^5 \<le> (2/3)^5" using x0 by (intro power_mono) auto
  then have e: "\<bar>x\<bar>^5 / 120 \<le> 1/900" by (simp add: power_divide)
  have b: "\<bar>1/2 - (x - x^3/6)\<bar> \<le> 1/900" using sin_cubic [of x] e s by linarith
  have lo: "52/100 < x"
  proof (rule ccontr)
    assume "\<not> 52/100 < x"
    then have "x - x^3/6 \<le> 52/100 - (52/100)^3/6" using cubic_mono [of x "52/100"] x0 by simp
    then show False using b by (simp add: power3_eq_cube)
  qed
  have hi: "x < 5283/10000"
  proof (rule ccontr)
    assume "\<not> x < 5283/10000"
    then have "5283/10000 - (5283/10000)^3/6 \<le> x - x^3/6"
      using cubic_mono [of "5283/10000" x] x0 by simp
    then show False using b by (simp add: power3_eq_cube)
  qed
  show "312/100 < pi" using lo by (simp add: x_def)
  show "pi < 317/100" using hi by (simp add: x_def)
qed

subsection \<open>The target count of concrete configurations\<close>

lemma py_int_nonneg_quotient:
  assumes "0 < d" "0 \<le> k" "of_int k * d \<le> n" "n < (of_int k + 1) * d"
  shows "py_int (n / d) = k"
proof -
  have "of_int k \<le> n / d" using assms by (simp add: pos_le_divide_eq)
  moreover have "n / d < of_int k + 1" using assms by (simp add: pos_divide_less_eq)
  ultimately have "\<lfloor>n / d\<rfloor> = k" by (simp add: floor_eq_iff)
  moreover have "0 \<le> n / d" using \<open>of_int k \<le> n / d\<close> \<open>0 \<le> k\<close>
    by (meson of_int_0_le_iff order_trans)
  ultimately show ?thesis by (simp add: py_int_def)
qed


lemma target_small: "target_circles small_config = Inr 2"
proof -
  have "target_circles small_config = Inr (py_int (1350 / (196 * pi)))"
    by (simp add: target_circles_def small_config_def Let_def power2_eq_square)
  moreover have "py_int (1350 / (196 * pi)) = 2"
    using pi_bounds by (intro py_int_nonneg_quotient) simp_all
  ultimately show ?thesis by simp
qed

lemma target_narrow: "target_circles narrow_config = Inr 3"
proof -
  have "target_circles narrow_config = Inr (py_int (2400 / (196 * pi)))"
    by (simp add: target_circles_def narrow_config_def Let_def power2_eq_square)
  moreover have "py_int (2400 / (196 * pi)) = 3"
    using pi_bounds by (intro py_int_nonneg_quotient) simp_all
  ultimately show ?thesis by simp
qed

lemma target_tiny_canvas: "target_circles tiny_canvas_config = Inr 0"
proof -
  have "target_circles tiny_canvas_config = Inr (py_int (150 / (196 * pi)))"
    by (simp add: target_circles_def tiny_canvas_config_def Let_def power2_eq_square)
  moreover have "py_int (150 / (196 * pi)) = 0"
    using pi_bounds by (intro py_int_nonneg_quotient) simp_all
  ultimately show ?thesis by simp
qed

lemma target_equal_radius: "target_circles equal_radius_config = Inr 1"
proof -
  have "target_circles equal_radius_config = Inr (py_int (144 / (pi * 25)))"
    by (simp add: target_circles_def equal_radius_config_def Let_def power2_eq_square)
  moreover have "py_int (144 / (pi * 25)) = 1"
    using pi_bounds by (intro py_int_nonneg_quotient) simp_all
  ultimately show ?thesis by simp
qed

lemma target_inverted: "target_circles inverted_config = Inr 1"
proof -
  have "target_circles inverted_config = Inr (py_int (576 / (pi * 121)))"
    by (simp add: target_circles_def inverted_config_def Let_def power2_eq_square)
  moreover have "py_int (576 / (pi * 121)) = 1"
    using pi_bounds by (intro py_int_nonneg_quotient) simp_all
  ultimately show ?thesis by simp
qed

subsection \<open>The collision test over the integers\<close>

lemma circles_overlap_int:
  "circles_overlap x1 y1 r1 x2 y2 r2 b \<longleftrightarrow>
     0 < r1 + r2 + b \<and> (x2 - x1)\<^sup>2 + (y2 - y1)\<^sup>2 < (r1 + r2 + b)\<^sup>2"
proof -
  define d where "d = (x2 - x1)\<^sup>2 + (y2 - y1)\<^sup>2"
  define t where "t = r1 + r2 + b"
  have d0: "0 \<le> d" by (simp add: d_def)
  show ?thesis
  proof (cases "0 < t")
    case True
    have "sqrt (of_int d) < of_int t \<longleftrightarrow> sqrt (of_int d) < sqrt ((of_int t)\<^sup>2)"
      using True by simp
    also have "\<dots> \<longleftrightarrow> (of_int d :: real) < (of_int t)\<^sup>2"
      by (rule real_sqrt_less_iff)
    also have "\<dots> \<longleftrightarrow> d < t\<^sup>2"
      by (metis of_int_less_iff of_int_power)
    finally show ?thesis using True by (simp add: circles_overlap_def d_def t_def)
  next
    case False
    have "0 \<le> sqrt (of_int d)" using d0 by simp
    moreover have "(of_int t :: real) \<le> 0" using False by simp
    ultimately have "\<not> sqrt (of_int d) < of_int t" by linarith
    then show ?thesis using False by (simp add: circles_overlap_def d_def t_def)
  qed
qed

lemma circles_overlap_sym:
  "circles_overlap x1 y1 r1 x2 y2 r2 b = circles_overlap x2 y2 r2 x1 y1 r1 b"
  by (simp add: circles_overlap_def power2_commute [of x1 x2] power2_commute [of y1 y2] add.commute)

lemma overlaps_existing_iff:
  "overlaps_existing x y r ps \<longleftrightarrow> (\<exists>(ex, ey, er) \<in> set ps. circles_overlap x y r ex ey er 2)"
  by (induction ps) auto

lemma can_place_circle_bounds:
  "can_place_circle c qs x y r \<Longrightarrow> r \<le> x \<and> x \<le> width c - r \<and> r \<le> y \<and> y \<le> height c - r"
  unfolding can_place_circle_def
  by (cases "x - r < 0 \<or> x + r > width c \<or> y - r < 0 \<or> y + r > height c") auto

lemma can_place_circle_clear:
  "can_place_circle c qs x y r \<Longrightarrow> \<not> overlaps_existing x y r qs"
  unfolding can_place_circle_def
  by (cases "x - r < 0 \<or> x + r > width c \<or> y - r < 0 \<or> y + r > height c") auto

lemma no_overlap_append:
  assumes "no_overlap ps" "\<not> overlaps_existing x y r ps"
  shows "no_overlap (ps @ [(x, y, r)])"
  unfolding no_overlap_def
proof (intro allI impI)
  fix i j
  assume i: "i < length (ps @ [(x, y, r)])" and j: "j < length (ps @ [(x, y, r)])" and ne: "i \<noteq> j"
  have new: "\<not> circles_overlap x y r ex ey er 2" if "(ex, ey, er) \<in> set ps" for ex ey er
    using assms(2) that by (auto simp: overlaps_existing_iff)
  consider "i < length ps" "j < length ps" | "i = length ps" "j < length ps"
    | "i < length ps" "j = length ps"
    using i j ne by (auto simp: less_Suc_eq)
  then show "case (ps @ [(x, y, r)]) ! i of (x1, y1, r1) \<Rightarrow>
               case (ps @ [(x, y, r)]) ! j of (x2, y2, r2) \<Rightarrow>
                 \<not> circles_overlap x1 y1 r1 x2 y2 r2 2"
  proof cases
    case 1
    then show ?thesis using assms(1) ne by (simp add: no_overlap_def nth_append)
  next
    case 2
    obtain ex ey er where e: "ps ! j = (ex, ey, er)" by (cases "ps ! j") auto
    then have "(ex, ey, er) \<in> set ps" using 2 by (metis nth_mem)
    then show ?thesis using 2 e new by (simp add: nth_append)
  next
    case 3
    obtain ex ey er where e: "ps ! i = (ex, ey, er)" by (cases "ps ! i") auto
    then have "(ex, ey, er) \<in> set ps" using 3 by (metis nth_mem)
    then have "\<not> circles_overlap ex ey er x y r 2" using new circles_overlap_sym by blast
    then show ?thesis using 3 e by (simp add: nth_append)
  qed
qed

lemma in_bounds_append:
  "in_bounds c ps \<Longrightarrow> can_place_circle c qs x y r \<Longrightarrow> in_bounds c (ps @ [(x, y, r)])"
  using can_place_circle_bounds [of c qs x y r] by (simp add: in_bounds_def)

subsection \<open>One iteration of each phase\<close>

lemma randint_pos: "randint g p a b = Inr (v, p') \<Longrightarrow> p' = Suc p"
  by (simp add: randint_def split: if_splits)

lemma randint_range: "randint g p a b = Inr (v, p') \<Longrightarrow> a \<le> v \<and> v \<le> b"
proof -
  assume h: "randint g p a b = Inr (v, p')"
  then have ab: "a \<le> b" and v: "v = a + int (g p mod nat (b - a + 1))"
    by (simp_all add: randint_def split: if_splits)
  have "g p mod nat (b - a + 1) < nat (b - a + 1)" using ab by (intro mod_less_divisor) simp
  then show ?thesis using v ab by linarith
qed

lemma get_varied_radius_pos: "get_varied_radius g p c = Inr (r, p') \<Longrightarrow> p' = p + 2"
  by (auto simp: get_varied_radius_def choices_def dest: randint_pos)

lemma phase1_body_cases:
  assumes "phase1_body g c s = Inr s'"
  obtains (rejected)
      "s' = s\<lparr>rng_pos := rng_pos s + 4, total_attempts := total_attempts s + 1\<rparr>"
  | (placed) x y r where "can_place_circle c (placed_circles s) x y r"
      "s' = s\<lparr>rng_pos := rng_pos s + 4, placed_circles := placed_circles s @ [(x, y, r)],
               circles_placed := circles_placed s + 1, total_attempts := total_attempts s + 1\<rparr>"
proof -
  from assms obtain r p1 where 1: "get_varied_radius g (rng_pos s) c = Inr (r, p1)"
    by (cases "get_varied_radius g (rng_pos s) c") (auto simp: phase1_body_def)
  from assms 1 obtain x p2 where 2: "randint g p1 r (width c - r) = Inr (x, p2)"
    by (cases "randint g p1 r (width c - r)") (auto simp: phase1_body_def)
  from assms 1 2 obtain y p3 where 3: "randint g p2 r (height c - r) = Inr (y, p3)"
    by (cases "randint g p2 r (height c - r)") (auto simp: phase1_body_def)
  have p3: "p3 = rng_pos s + 4"
    using get_varied_radius_pos [OF 1] randint_pos [OF 2] randint_pos [OF 3] by simp
  show thesis
  proof (cases "can_place_circle c (placed_circles s) x y r")
    case True
    then have "s' = s\<lparr>rng_pos := rng_pos s + 4, placed_circles := placed_circles s @ [(x, y, r)],
               circles_placed := circles_placed s + 1, total_attempts := total_attempts s + 1\<rparr>"
      using assms 1 2 3 p3 by (simp add: phase1_body_def place_def)
    then show ?thesis using True placed by blast
  next
    case False
    then have "s' = s\<lparr>rng_pos := rng_pos s + 4, total_attempts := total_attempts s + 1\<rparr>"
      using assms 1 2 3 p3 by (simp add: phase1_body_def)
    then show ?thesis using rejected by blast
  qed
qed

lemma phase2_body_cases:
  assumes "phase2_body g c s = Inr s'"
  obtains (rejected) "s' = s\<lparr>rng_pos := rng_pos s + 3\<rparr>"
  | (placed) x y r where "can_place_circle c (placed_circles s) x y r"
      "s' = s\<lparr>rng_pos := rng_pos s + 3, placed_circles := placed_circles s @ [(x, y, r)],
               circles_placed := circles_placed s + 1\<rparr>"
proof -
  from assms obtain r p1 where 1: "randint g (rng_pos s) (min_radius c) (min_radius c + 5) = Inr (r, p1)"
    by (cases "randint g (rng_pos s) (min_radius c) (min_radius c + 5)") (auto simp: phase2_body_def)
  from assms 1 obtain x p2 where 2: "randint g p1 r (width c - r) = Inr (x, p2)"
    by (cases "randint g p1 r (width c - r)") (auto simp: phase2_body_def)
  from assms 1 2 obtain y p3 where 3: "randint g p2 r (height c - r) = Inr (y, p3)"
    by (cases "randint g p2 r (height c - r)") (auto simp: phase2_body_def)
  have p3: "p3 = rng_pos s + 3"
    using randint_pos [OF 1] randint_pos [OF 2] randint_pos [OF 3] by simp
  show thesis
  proof (cases "can_place_circle c (placed_circles s) x y r")
    case True
    then have "s' = s\<lparr>rng_pos := rng_pos s + 3, placed_circles := placed_circles s @ [(x, y, r)],
               circles_placed := circles_placed s + 1\<rparr>"
      using assms 1 2 3 p3 by (simp add: phase2_body_def place_def)
    then show ?thesis using True placed by blast
  next
    case False
    then have "s' = s\<lparr>rng_pos := rng_pos s + 3\<rparr>"
      using assms 1 2 3 p3 by (simp add: phase2_body_def)
    then show ?thesis using rejected by blast
  qed
qed

subsection \<open>Unfolding the loops\<close>

lemma phase1_stop:
  "\<not> (circles_placed s < t \<and> total_attempts s < t * max_attempts c) \<Longrightarrow> phase1 g c t s = Inr s"
  by (subst phase1.simps) auto

lemma phase1_step:
  "circles_placed s < t \<Longrightarrow> total_attempts s < t * max_attempts c \<Longrightarrow>
   phase1 g c t s = (case phase1_body g c s of Inl e \<Rightarrow> Inl e | Inr s' \<Rightarrow> phase1 g c t s')"
  by (subst phase1.simps) simp

lemma phase1_invariant:
  "\<forall>s s'. I s \<longrightarrow> phase1_body g c s = Inr s' \<longrightarrow> I s' \<Longrightarrow> I s \<Longrightarrow>
   phase1 g c t s = Inr s' \<Longrightarrow> I s'"
proof (induction g c t s rule: phase1.induct)
  case (1 g c target s)
  show ?case
  proof (cases "circles_placed s < target \<and> total_attempts s < target * max_attempts c")
    case True
    then obtain s1 where b: "phase1_body g c s = Inr s1" and r: "phase1 g c target s1 = Inr s'"
      using "1.prems"(3) by (cases "phase1_body g c s") (simp_all add: phase1_step)
    have "I s1" using "1.prems"(1) "1.prems"(2) b by blast
    then show ?thesis using "1.IH" [OF True b "1.prems"(1)] r by blast
  next
    case False
    then have "s' = s" using "1.prems"(3) by (simp add: phase1_stop)
    then show ?thesis using "1.prems"(2) by simp
  qed
qed

lemma phase2_invariant:
  "\<forall>s s'. I s \<longrightarrow> phase2_body g c s = Inr s' \<longrightarrow> I s' \<Longrightarrow> I s \<Longrightarrow>
   phase2 g c n s = Inr s' \<Longrightarrow> I s'"
proof (induction n arbitrary: s)
  case 0
  then show ?case by (simp add: phase2.simps)
next
  case (Suc n)
  from Suc.prems(3) obtain s1 where b: "phase2_body g c s = Inr s1" and r: "phase2 g c n s1 = Inr s'"
    by (cases "phase2_body g c s") (simp_all add: phase2.simps)
  have "I s1" using Suc.prems(1) Suc.prems(2) b by blast
  then show ?case using Suc.IH [OF Suc.prems(1)] r by blast
qed

subsection \<open>Concrete runs\<close>

lemmas run_simps =
  randint_def choices_def size_ranges_def get_varied_radius_def can_place_circle_def
  circles_overlap_int place_def phase1_body_def phase2_body_def tape_source_def
  phase1_step phase1_stop phase2.simps initial_state_def

lemma small_phase1:
  "phase1 (tape_source small_tape) small_config 2 initial_state =
     Inr \<lparr>placed_circles = [(3, 3, 3), (23, 23, 3)], circles_placed = 2, total_attempts = 3,
          rng_pos = 12\<rparr>"
  by (simp add: run_simps small_config_def small_tape_def)

lemma small_phase2:
  "phase2 (tape_source small_tape) small_config (Suc 0)
     \<lparr>placed_circles = [(3, 3, 3), (23, 23, 3)], circles_placed = 2, total_attempts = 3,
      rng_pos = 12\<rparr> =
     Inr \<lparr>placed_circles = [(3, 3, 3), (23, 23, 3), (22, 4, 4)], circles_placed = 3,
          total_attempts = 3, rng_pos = 15\<rparr>"
  by (simp add: run_simps small_config_def small_tape_def)

lemma small_run:
  "non_overlapping_circle_packed_image (tape_source small_tape) small_config ''out.jpg'' =
     Inr small_result"
  by (simp add: non_overlapping_circle_packed_image_def target_small small_phase1 small_phase2
      compute_stats_def small_result_def)

lemma other_run:
  "non_overlapping_circle_packed_image (tape_source other_tape) small_config ''out.jpg'' =
     Inr other_result"
proof -
  have "phase1 (tape_source other_tape) small_config 2 initial_state =
     Inr \<lparr>placed_circles = [(3, 3, 3), (23, 23, 3)], circles_placed = 2, total_attempts = 3,
          rng_pos = 12\<rparr>"
    by (simp add: run_simps small_config_def other_tape_def)
  moreover have "phase2 (tape_source other_tape) small_config (Suc 0)
     \<lparr>placed_circles = [(3, 3, 3), (23, 23, 3)], circles_placed = 2, total_attempts = 3,
      rng_pos = 12\<rparr> =
     Inr \<lparr>placed_circles = [(3, 3, 3), (23, 23, 3), (21, 3, 3)], circles_placed = 3,
          total_attempts = 3, rng_pos = 15\<rparr>"
    by (simp add: run_simps small_config_def other_tape_def)
  ultimately show ?thesis
    by (simp add: non_overlapping_circle_packed_image_def target_small compute_stats_def
        other_result_def)
qed

lemma equal_radius_run:
  "non_overlapping_circle_packed_image (tape_source []) equal_radius_config ''out.jpg'' =
     Inr \<lparr>returned = ''out.jpg'',
          printed_stats = \<lparr>stats_min = 5, stats_max = 5, stats_avg = 5,
                             stats_total_circles = 1\<rparr>,
          final_state = \<lparr>placed_circles = [(5, 5, 5)], circles_placed = 1, total_attempts = 1,
                           rng_pos = 4\<rparr>\<rparr>"
proof -
  have "phase1 (tape_source []) equal_radius_config 1 initial_state =
     Inr \<lparr>placed_circles = [(5, 5, 5)], circles_placed = 1, total_attempts = 1, rng_pos = 4\<rparr>"
    by (simp add: run_simps equal_radius_config_def)
  then show ?thesis
    by (simp add: non_overlapping_circle_packed_image_def target_equal_radius phase2.simps
        compute_stats_def)
qed

lemma tiny_canvas_run:
  "non_overlapping_circle_packed_image g tiny_canvas_config out = Inl ValueError_empty_sequence"
  by (simp add: non_overlapping_circle_packed_image_def target_tiny_canvas phase1_stop
      phase2.simps initial_state_def compute_stats_def)

lemma narrow_run:
  "non_overlapping_circle_packed_image (tape_source [4]) narrow_config out =
     Inl ValueError_empty_range"
proof -
  have "phase1 (tape_source [4]) narrow_config 3 initial_state = Inl ValueError_empty_range"
    by (simp add: run_simps narrow_config_def)
  then show ?thesis
    by (simp add: non_overlapping_circle_packed_image_def target_narrow)
qed

subsection \<open>What a completed run went through\<close>

lemma run_phases:
  assumes "non_overlapping_circle_packed_image g c out = Inr res"
  obtains t s1 where "target_circles c = Inr t" "phase1 g c t initial_state = Inr s1"
    "phase2 g c (nat (t div 2)) s1 = Inr (final_state res)"
    "compute_stats (map (\<lambda>(x, y, r). r) (placed_circles (final_state res))) = Inr (printed_stats res)"
    "returned res = out"
proof -
  from assms obtain t where 1: "target_circles c = Inr t"
    by (cases "target_circles c") (auto simp: non_overlapping_circle_packed_image_def)
  from assms 1 obtain s1 where 2: "phase1 g c t initial_state = Inr s1"
    by (cases "phase1 g c t initial_state") (auto simp: non_overlapping_circle_packed_image_def)
  from assms 1 2 obtain s2 where 3: "phase2 g c (nat (t div 2)) s1 = Inr s2"
    by (cases "phase2 g c (nat (t div 2)) s1") (auto simp: non_overlapping_circle_packed_image_def)
  from assms 1 2 3 obtain st where 4: "compute_stats (map (\<lambda>(x, y, r). r) (placed_circles s2)) = Inr st"
    by (cases "compute_stats (map (\<lambda>(x, y, r). r) (placed_circles s2))")
       (auto simp: non_overlapping_circle_packed_image_def)
  have "res = \<lparr>returned = out, printed_stats = st, final_state = s2\<rparr>"
    using assms 1 2 3 4 by (simp add: non_overlapping_circle_packed_image_def)
  then show thesis using that 1 2 3 4 by simp
qed

lemma phases_invariant:
  assumes "non_overlapping_circle_packed_image g c out = Inr res"
    and "I []"
    and "\<And>ps x y r. I ps \<Longrightarrow> can_place_circle c ps x y r \<Longrightarrow> I (ps @ [(x, y, r)])"
  shows "I (placed_circles (final_state res))"
proof -
  obtain t s1 where 1: "phase1 g c t initial_state = Inr s1"
    and 2: "phase2 g c (nat (t div 2)) s1 = Inr (final_state res)"
    using run_phases [OF assms(1)] by metis
  have b1: "\<forall>s s'. I (placed_circles s) \<longrightarrow> phase1_body g c s = Inr s' \<longrightarrow> I (placed_circles s')"
  proof (intro allI impI)
    fix s s' assume i: "I (placed_circles s)" and b: "phase1_body g c s = Inr s'"
    from b show "I (placed_circles s')"
    proof (cases rule: phase1_body_cases)
      case rejected
      then show ?thesis using i by simp
    next
      case (placed x y r)
      then show ?thesis using i assms(3) by simp
    qed
  qed
  have b2: "\<forall>s s'. I (placed_circles s) \<longrightarrow> phase2_body g c s = Inr s' \<longrightarrow> I (placed_circles s')"
  proof (intro allI impI)
    fix s s' assume i: "I (placed_circles s)" and b: "phase2_body g c s = Inr s'"
    from b show "I (placed_circles s')"
    proof (cases rule: phase2_body_cases)
      case rejected
      then show ?thesis using i by simp
    next
      case (placed x y r)
      then show ?thesis using i assms(3) by simp
    qed
  qed
  have "I (placed_circles initial_state)" using assms(2) by (simp add: initial_state_def)
  then have "I (placed_circles s1)" using phase1_invariant [OF b1 _ 1] by blast
  then show ?thesis using phase2_invariant [OF b2 _ 2] by blast
qed

subsection \<open>Counters\<close>





lemma small_first_attempt:
  "phase1_body (tape_source small_tape) small_config initial_state =
     Inr \<lparr>placed_circles = [(3, 3, 3)], circles_placed = 1, total_attempts = 1, rng_pos = 4\<rparr>"
  by (simp add: run_simps small_config_def small_tape_def)

lemma small_gap_fill_attempt:
  "phase2_body (tape_source small_tape) small_config
     \<lparr>placed_circles = [(3, 3, 3), (23, 23, 3)], circles_placed = 2, total_attempts = 3,
      rng_pos = 12\<rparr> = Inr (final_state small_result)"
  by (simp add: run_simps small_config_def small_tape_def small_result_def)

lemma compute_stats_Inr:
  assumes "compute_stats sizes = Inr st"
  shows "sizes \<noteq> []"
    and "st = \<lparr>stats_min = Min (set sizes), stats_max = Max (set sizes),
            stats_avg = of_int (sum_list sizes) / of_nat (length sizes),
            stats_total_circles = length sizes\<rparr>"
  using assms by (auto simp: compute_stats_def split: if_splits)

subsection \<open>The size sampler\<close>

lemma size_ranges_lower:
  assumes "k < 5"
  shows "mn \<le> fst (size_ranges mn mx ! k)"
proof -
  from assms have "k = 0 \<or> k = 1 \<or> k = 2 \<or> k = 3 \<or> k = 4" by arith
  then show ?thesis by (auto simp: size_ranges_def)
qed

lemma get_varied_radius_in_range:
  assumes "get_varied_radius g p c = Inr (r, p')"
  shows "min_radius c \<le> r \<and> r \<le> max_radius c"
proof -
  define k where "k = g p mod 5"
  have k: "k < 5" by (simp add: k_def)
  define rg where "rg = size_ranges (min_radius c) (max_radius c) ! k"
  have "randint g (Suc p) (fst rg) (min (snd rg) (max_radius c)) = Inr (r, p')"
    using assms by (simp add: get_varied_radius_def choices_def rg_def k_def size_ranges_def)
  then have "fst rg \<le> r \<and> r \<le> min (snd rg) (max_radius c)" by (rule randint_range)
  moreover have "min_radius c \<le> fst rg" unfolding rg_def using k by (rule size_ranges_lower)
  ultimately show ?thesis by simp
qed

lemma get_varied_radius_inverted:
  assumes "max_radius c < min_radius c"
  shows "get_varied_radius g p c = Inl ValueError_empty_range"
proof -
  define k where "k = g p mod 5"
  have k: "k < 5" by (simp add: k_def)
  define rg where "rg = size_ranges (min_radius c) (max_radius c) ! k"
  have "min_radius c \<le> fst rg" unfolding rg_def using k by (rule size_ranges_lower)
  then have "min (snd rg) (max_radius c) < fst rg" using assms by simp
  then have "randint g (Suc p) (fst rg) (min (snd rg) (max_radius c)) = Inl ValueError_empty_range"
    by (simp add: randint_def)
  then show ?thesis
    by (simp add: get_varied_radius_def choices_def rg_def k_def size_ranges_def)
qed

lemma get_varied_radius_wide_range:
  assumes "min_radius c + 18 \<le> max_radius c"
  shows "\<exists>r. get_varied_radius g p c = Inr (r, p + 2)"
proof -
  define k where "k = g p mod 5"
  have "k < 5" by (simp add: k_def)
  then have "k = 0 \<or> k = 1 \<or> k = 2 \<or> k = 3 \<or> k = 4" by arith
  then have "\<exists>r. randint g (Suc p) (fst (size_ranges (min_radius c) (max_radius c) ! k))
      (min (snd (size_ranges (min_radius c) (max_radius c) ! k)) (max_radius c)) = Inr (r, p + 2)"
    using assms by (auto simp: size_ranges_def randint_def)
  then show ?thesis
    by (simp add: get_varied_radius_def choices_def k_def size_ranges_def)
qed

lemma phase1_body_oversize:
  assumes "get_varied_radius g (rng_pos s) c = Inr (r, p1)"
    and "width c < 2 * r \<or> height c < 2 * r"
  shows "phase1_body g c s = Inl ValueError_empty_range"
proof (cases "width c < 2 * r")
  case True
  then have "randint g p1 r (width c - r) = Inl ValueError_empty_range"
    by (simp add: randint_def)
  then show ?thesis using assms(1) by (simp add: phase1_body_def)
next
  case False
  then have h: "height c < 2 * r" using assms(2) by simp
  obtain x p2 where "randint g p1 r (width c - r) = Inr (x, p2)"
    using False by (simp add: randint_def)
  moreover have "randint g p2 r (height c - r) = Inl ValueError_empty_range"
    using h by (simp add: randint_def)
  ultimately show ?thesis using assms(1) by (simp add: phase1_body_def)
qed

subsection \<open>The target of a run that completes\<close>


subsection \<open>The colour sampler\<close>

lemma take_drop_nth:
  assumes "i \<le> j" "j \<le> length xs"
  shows "take (j - i) (drop i xs) = map ((!) xs) [i..<j]"
proof -
  have "take (j - i) (drop i xs) = take (j - i) (drop i (map ((!) xs) [0..<length xs]))"
    by (simp add: map_nth)
  also have "\<dots> = map ((!) xs) (take (j - i) (drop i [0..<length xs]))"
    by (simp add: take_map drop_map)
  also have "\<dots> = map ((!) xs) [i..<j]"
    using assms by (simp add: take_upt)
  finally show ?thesis .
qed

lemma py_slice_nonneg:
  assumes "0 \<le> a" "0 \<le> b" "b \<le> int (length xs)"
  shows "py_slice xs a b = map ((!) xs) [nat a..<nat b]"
proof (cases "a \<le> b")
  case True
  then have "py_slice xs a b = take (nat b - nat a) (drop (nat a) xs)"
    using assms by (simp add: py_slice_def Let_def min_def nat_diff_distrib)
  also have "\<dots> = map ((!) xs) [nat a..<nat b]"
    using True assms by (intro take_drop_nth) simp_all
  finally show ?thesis .
next
  case False
  then have "py_slice xs a b = []"
    using assms by (simp add: py_slice_def Let_def min_def)
  moreover have "[nat a..<nat b] = []" using False assms by simp
  ultimately show ?thesis by simp
qed

lemma region_is_clipped_box:
  assumes "well_formed img_np w h" "0 \<le> x + r" "0 \<le> y + r"
  shows "concat (map (\<lambda>row. py_slice row (max 0 (x - r)) (min w (x + r)))
           (py_slice img_np (max 0 (y - r)) (min h (y + r)))) = clipped_box img_np w h x y r"
proof -
  have h: "int (length img_np) = h" and rows: "\<And>row. row \<in> set img_np \<Longrightarrow> int (length row) = w"
    using assms(1) by (simp_all add: well_formed_def list_all_iff)
  have h0: "0 \<le> h" using h by simp
  have ys: "py_slice img_np (max 0 (y - r)) (min h (y + r)) =
      map ((!) img_np) [nat (max 0 (y - r))..<nat (min h (y + r))]"
    using h h0 assms(3) by (intro py_slice_nonneg) simp_all
  have xs: "py_slice (img_np ! i) (max 0 (x - r)) (min w (x + r)) =
      map (\<lambda>j. img_np ! i ! j) [nat (max 0 (x - r))..<nat (min w (x + r))]"
    if "i \<in> set [nat (max 0 (y - r))..<nat (min h (y + r))]" for i
  proof -
    have "i < nat (min h (y + r))" using that by simp
    then have "i < length img_np" using h by linarith
    then have w: "int (length (img_np ! i)) = w" using rows by simp
    then have "0 \<le> w" by simp
    then show ?thesis using w assms(2) by (intro py_slice_nonneg) simp_all
  qed
  show ?thesis
    unfolding ys clipped_box_def map_map comp_def
    by (rule arg_cong [where f = concat], rule map_cong [OF refl]) (rule xs)
qed

lemma sample_image_well_formed: "well_formed sample_image 3 2"
  by (simp add: well_formed_def sample_image_def)

section \<open>The claims\<close>

text \<open>
  C1. Any two distinct circles of the final placed set, whichever phase placed them, keep
  their centres at least the sum of their radii plus the buffer 2 apart: each circle was
  appended only after \<open>can_place_circle\<close> had compared it with every circle placed before.
\<close>

theorem placed_circles_never_overlap:
  assumes "non_overlapping_circle_packed_image g c out = Inr res"
    and "i < length (placed_circles (final_state res))"
    and "j < length (placed_circles (final_state res))"
    and "i \<noteq> j"
    and "placed_circles (final_state res) ! i = (x1, y1, r1)"
    and "placed_circles (final_state res) ! j = (x2, y2, r2)"
  shows "of_int (r1 + r2 + 2) \<le> sqrt (of_int ((x2 - x1)\<^sup>2 + (y2 - y1)\<^sup>2))"
proof -
  have "no_overlap (placed_circles (final_state res))"
  proof (rule phases_invariant [OF assms(1)])
    show "no_overlap []" by (simp add: no_overlap_def)
  next
    fix ps x y r
    assume "no_overlap ps" "can_place_circle c ps x y r"
    then show "no_overlap (ps @ [(x, y, r)])"
      using can_place_circle_clear no_overlap_append by blast
  qed
  then have "\<not> circles_overlap x1 y1 r1 x2 y2 r2 2"
    using assms(2-6) unfolding no_overlap_def by fastforce
  then show ?thesis by (simp add: circles_overlap_def not_less)
qed

theorem placed_circles_never_overlap_witness:
  "non_overlapping_circle_packed_image (tape_source small_tape) small_config ''out.jpg'' =
     Inr small_result \<and>
   placed_circles (final_state small_result) ! 0 = (3, 3, 3) \<and>
   placed_circles (final_state small_result) ! 2 = (22, 4, 4) \<and>
   of_int (3 + 4 + 2) \<le> sqrt (of_int ((22 - 3)\<^sup>2 + (4 - 3)\<^sup>2) :: real)"
  using placed_circles_never_overlap [OF small_run, of 0 2 3 3 3 22 4 4] small_run
  by (simp add: small_result_def)

text \<open>
  C2. Every circle of the final placed set lies inside the canvas, \<open>r \<le> x \<le> width - r\<close>
  and \<open>r \<le> y \<le> height - r\<close>, and an iteration of either phase keeps a placed set that
  is inside the canvas inside it.
\<close>

theorem placed_circles_in_bounds:
  "(non_overlapping_circle_packed_image g c out = Inr res \<longrightarrow>
      (\<forall>(x, y, r) \<in> set (placed_circles (final_state res)).
          r \<le> x \<and> x \<le> width c - r \<and> r \<le> y \<and> y \<le> height c - r)) \<and>
   (in_bounds c (placed_circles sa) \<and> phase1_body g c sa = Inr sa' \<longrightarrow>
      in_bounds c (placed_circles sa')) \<and>
   (in_bounds c (placed_circles sb) \<and> phase2_body g c sb = Inr sb' \<longrightarrow>
      in_bounds c (placed_circles sb'))"
proof (intro conjI impI)
  assume run: "non_overlapping_circle_packed_image g c out = Inr res"
  have "in_bounds c (placed_circles (final_state res))"
  proof (rule phases_invariant [OF run])
    show "in_bounds c []" by (simp add: in_bounds_def)
  next
    fix ps x y r
    assume "in_bounds c ps" "can_place_circle c ps x y r"
    then show "in_bounds c (ps @ [(x, y, r)])" by (rule in_bounds_append)
  qed
  then show "\<forall>(x, y, r) \<in> set (placed_circles (final_state res)).
      r \<le> x \<and> x \<le> width c - r \<and> r \<le> y \<and> y \<le> height c - r"
    by (simp add: in_bounds_def list_all_iff)
next
  assume h: "in_bounds c (placed_circles sa) \<and> phase1_body g c sa = Inr sa'"
  then have b: "phase1_body g c sa = Inr sa'" by simp
  from b show "in_bounds c (placed_circles sa')"
  proof (cases rule: phase1_body_cases)
    case rejected
    then show ?thesis using h by simp
  next
    case (placed x y r)
    then show ?thesis using h in_bounds_append by simp
  qed
next
  assume h: "in_bounds c (placed_circles sb) \<and> phase2_body g c sb = Inr sb'"
  then have b: "phase2_body g c sb = Inr sb'" by simp
  from b show "in_bounds c (placed_circles sb')"
  proof (cases rule: phase2_body_cases)
    case rejected
    then show ?thesis using h by simp
  next
    case (placed x y r)
    then show ?thesis using h in_bounds_append by simp
  qed
qed

theorem placed_circles_in_bounds_witness:
  "non_overlapping_circle_packed_image (tape_source small_tape) small_config ''out.jpg'' =
     Inr small_result \<and>
   placed_circles (final_state small_result) = [(3, 3, 3), (23, 23, 3), (22, 4, 4)] \<and>
   (22 :: int) \<le> width small_config - 4 \<and> (4 :: int) \<le> height small_config - 4 \<and>
   in_bounds small_config [] \<and> in_bounds small_config [(3, 3, 3)] \<and>
   in_bounds small_config [(3, 3, 3), (23, 23, 3)] \<and>
   in_bounds small_config [(3, 3, 3), (23, 23, 3), (22, 4, 4)]"
  using placed_circles_in_bounds [of "tape_source small_tape" small_config "''out.jpg''"
      small_result initial_state
      "\<lparr>placed_circles = [(3, 3, 3)], circles_placed = 1, total_attempts = 1, rng_pos = 4\<rparr>"
      "\<lparr>placed_circles = [(3, 3, 3), (23, 23, 3)], circles_placed = 2, total_attempts = 3,
        rng_pos = 12\<rparr>"
      "final_state small_result"]
    small_run small_first_attempt small_gap_fill_attempt
  by (simp add: small_result_def small_config_def initial_state_def in_bounds_def)



text \<open>
  C10. When both phases finish with an empty placed set, the statistics step takes the
  minimum of an empty list and the run ends with ValueError instead of returning the
  output path; hence a run that returns has placed at least one circle.
\<close>

theorem empty_placed_set_fails:
  "(target_circles c = Inr t \<and> phase1 g c t initial_state = Inr s1 \<and>
    phase2 g c (nat (t div 2)) s1 = Inr s2 \<and> placed_circles s2 = [] \<longrightarrow>
      non_overlapping_circle_packed_image g c out = Inl ValueError_empty_sequence) \<and>
   (non_overlapping_circle_packed_image g c out = Inr res \<longrightarrow>
      placed_circles (final_state res) \<noteq> [] \<and> 1 \<le> stats_total_circles (printed_stats res))"
proof (intro conjI impI)
  assume "target_circles c = Inr t \<and> phase1 g c t initial_state = Inr s1 \<and>
    phase2 g c (nat (t div 2)) s1 = Inr s2 \<and> placed_circles s2 = []"
  then show "non_overlapping_circle_packed_image g c out = Inl ValueError_empty_sequence"
    by (simp add: non_overlapping_circle_packed_image_def compute_stats_def)
next
  assume run: "non_overlapping_circle_packed_image g c out = Inr res"
  then have st: "compute_stats (map (\<lambda>(x, y, r). r) (placed_circles (final_state res))) =
      Inr (printed_stats res)"
    by (rule run_phases)
  from compute_stats_Inr(1) [OF st] show ne: "placed_circles (final_state res) \<noteq> []"
    by simp
  have "stats_total_circles (printed_stats res) = length (placed_circles (final_state res))"
    by (subst compute_stats_Inr(2) [OF st]) simp
  then show "1 \<le> stats_total_circles (printed_stats res)"
    using ne by (cases "placed_circles (final_state res)") simp_all
qed

theorem empty_placed_set_fails_witness:
  "target_circles tiny_canvas_config = Inr 0 \<and>
   phase1 (tape_source []) tiny_canvas_config 0 initial_state = Inr initial_state \<and>
   phase2 (tape_source []) tiny_canvas_config (nat (0 div 2)) initial_state = Inr initial_state \<and>
   placed_circles initial_state = [] \<and>
   non_overlapping_circle_packed_image (tape_source []) tiny_canvas_config ''out.jpg'' =
     Inl ValueError_empty_sequence \<and>
   non_overlapping_circle_packed_image (tape_source small_tape) small_config ''out.jpg'' =
     Inr small_result \<and>
   placed_circles (final_state small_result) \<noteq> [] \<and>
   1 \<le> stats_total_circles (printed_stats small_result)"
proof -
  have 1: "target_circles tiny_canvas_config = Inr 0" by (rule target_tiny_canvas)
  have 2: "phase1 (tape_source []) tiny_canvas_config 0 initial_state = Inr initial_state"
    by (simp add: phase1_stop initial_state_def)
  have 3: "phase2 (tape_source []) tiny_canvas_config (nat (0 div 2)) initial_state = Inr initial_state"
    by (simp add: phase2.simps)
  have 4: "placed_circles initial_state = []" by (simp add: initial_state_def)
  have "non_overlapping_circle_packed_image (tape_source []) tiny_canvas_config ''out.jpg'' =
     Inl ValueError_empty_sequence"
    using empty_placed_set_fails [of tiny_canvas_config 0 "tape_source []" initial_state
      initial_state "''out.jpg''"] 1 2 3 4 by blast
  moreover have "placed_circles (final_state small_result) \<noteq> [] \<and>
      1 \<le> stats_total_circles (printed_stats small_result)"
    using empty_placed_set_fails [of small_config 0 "tape_source small_tape" initial_state
      initial_state "''out.jpg''" small_result] small_run by blast
  ultimately show ?thesis using 1 2 3 4 small_run by blast
qed

text \<open>
  C9 (as amended). The function returns the output path and nothing else. The statistics
  (minimum, maximum and average radius and the number of circles of the final placed set)
  are computed and printed before it returns; they are not part of the returned value.
\<close>

theorem returns_output_path_only:
  assumes "non_overlapping_circle_packed_image g c out = Inr res"
  shows "returned res = out \<and>
    printed_stats res =
      (let sizes = map (\<lambda>(x, y, r). r) (placed_circles (final_state res))
       in \<lparr>stats_min = Min (set sizes), stats_max = Max (set sizes),
            stats_avg = of_int (sum_list sizes) / of_nat (length sizes),
            stats_total_circles = length sizes\<rparr>)"
proof -
  from assms have st: "compute_stats (map (\<lambda>(x, y, r). r) (placed_circles (final_state res))) =
      Inr (printed_stats res)"
    by (rule run_phases)
  from assms have out: "returned res = out"
    by (rule run_phases)
  show ?thesis using compute_stats_Inr(2) [OF st] out by (simp only: Let_def)
qed

theorem returns_output_path_only_witness:
  "non_overlapping_circle_packed_image (tape_source small_tape) small_config ''out.jpg'' =
     Inr small_result \<and>
   returned small_result = ''out.jpg'' \<and>
   printed_stats small_result =
     \<lparr>stats_min = 3, stats_max = 4, stats_avg = 10 / 3, stats_total_circles = 3\<rparr>"
  using returns_output_path_only [OF small_run] small_run
  by (simp add: small_result_def)

text \<open>
  The claim as the specification states it, that the statistics come back with the output
  path, fails: two runs return the same value although their statistics differ.
\<close>

theorem returned_value_without_statistics:
  "non_overlapping_circle_packed_image (tape_source small_tape) small_config ''out.jpg'' =
     Inr small_result \<and>
   non_overlapping_circle_packed_image (tape_source other_tape) small_config ''out.jpg'' =
     Inr other_result \<and>
   returned small_result = returned other_result \<and>
   printed_stats small_result \<noteq> printed_stats other_result"
  using small_run other_run by (simp add: small_result_def other_result_def)

text \<open>
  C3. The sampler is meant to return a radius in \<open>[min_radius, max_radius]\<close> for every
  \<open>0 < min_radius < max_radius\<close> and never to fail. The source clamps the upper end of the
  chosen bucket to \<open>max_radius\<close> but not the lower end: with radii from 5 to 10, the third
  bucket is \<open>(13, 18)\<close>, the draw is \<open>randint 13 10\<close> and the sampler raises ValueError.
  (When it returns, the radius is in range: \<open>get_varied_radius_in_range\<close>; it cannot fail
  once \<open>min_radius + 18 \<le> max_radius\<close>: \<open>get_varied_radius_wide_range\<close>.)
\<close>

theorem sampler_fails_on_narrow_range:
  "0 < min_radius scenario_config \<and> min_radius scenario_config < max_radius scenario_config \<and>
   get_varied_radius (tape_source [2]) 0 scenario_config = Inl ValueError_empty_range"
  by (simp add: scenario_config_def get_varied_radius_def choices_def size_ranges_def
      randint_def tape_source_def)

text \<open>
  C4. A sampled radius with \<open>width < 2r\<close> or \<open>height < 2r\<close> is meant to be skipped and
  counted as a failed attempt. In the source the draw of the centre, \<open>randint r (width - r)\<close>,
  then has an empty range and raises ValueError (\<open>phase1_body_oversize\<close>): with the default
  radii on a 40 x 40 canvas, a radius from the last bucket ends the run. On the 10 x 10
  canvas the target is 0, neither loop runs, and the run ends with ValueError in the
  statistics step.
\<close>

theorem oversize_radius_raises:
  "non_overlapping_circle_packed_image (tape_source [4]) narrow_config ''out.jpg'' =
     Inl ValueError_empty_range \<and>
   non_overlapping_circle_packed_image (tape_source []) tiny_canvas_config ''out.jpg'' =
     Inl ValueError_empty_sequence"
  using narrow_run [of "''out.jpg''"] tiny_canvas_run [of "tape_source []" "''out.jpg''"]
  by simp

text \<open>
  C7 (as amended). The source checks no parameter. With \<open>max_radius < min_radius\<close>, and a
  first loop that runs at all (\<open>target \<ge> 1\<close> and \<open>max_attempts \<ge> 1\<close>), the run ends with
  ValueError at the first radius draw, before any circle is placed.
\<close>

theorem inverted_radii_fail:
  assumes "max_radius c < min_radius c" "target_circles c = Inr t" "0 < t" "0 < max_attempts c"
  shows "non_overlapping_circle_packed_image g c out = Inl ValueError_empty_range"
proof -
  have "phase1_body g c initial_state = Inl ValueError_empty_range"
    using get_varied_radius_inverted [OF assms(1)] by (simp add: phase1_body_def)
  moreover have "circles_placed initial_state < t" using assms(3) by (simp add: initial_state_def)
  moreover have "total_attempts initial_state < t * max_attempts c"
    using assms(3,4) by (simp add: initial_state_def)
  ultimately have "phase1 g c t initial_state = Inl ValueError_empty_range"
    by (simp add: phase1_step)
  then show ?thesis using assms(2) by (simp add: non_overlapping_circle_packed_image_def)
qed

theorem inverted_radii_fail_witness:
  "max_radius inverted_config < min_radius inverted_config \<and>
   target_circles inverted_config = Inr 1 \<and> 0 < max_attempts inverted_config \<and>
   non_overlapping_circle_packed_image (tape_source []) inverted_config ''out.jpg'' =
     Inl ValueError_empty_range"
proof -
  have 1: "max_radius inverted_config < min_radius inverted_config"
    by (simp add: inverted_config_def)
  have 2: "0 < max_attempts inverted_config" by (simp add: inverted_config_def)
  have 3: "(0::int) < 1" by simp
  show ?thesis
    using inverted_radii_fail [OF 1 target_inverted 3 2, of "tape_source []" "''out.jpg''"]
      1 2 target_inverted by simp
qed

text \<open>
  The claim as the specification states it fails: with \<open>min_radius = max_radius = 5\<close>, a
  configuration it calls invalid, the run places a circle and returns.
\<close>

theorem equal_radii_run_succeeds:
  "max_radius equal_radius_config \<le> min_radius equal_radius_config \<and>
   non_overlapping_circle_packed_image (tape_source []) equal_radius_config ''out.jpg'' =
     Inr \<lparr>returned = ''out.jpg'',
          printed_stats = \<lparr>stats_min = 5, stats_max = 5, stats_avg = 5,
                             stats_total_circles = 1\<rparr>,
          final_state = \<lparr>placed_circles = [(5, 5, 5)], circles_placed = 1, total_attempts = 1,
                           rng_pos = 4\<rparr>\<rparr>"
  using equal_radius_run by (simp add: equal_radius_config_def)



text \<open>
  C8 (as amended). For a circle with \<open>x + r \<ge> 0\<close> and \<open>y + r \<ge> 0\<close>, and an image that is
  an array of \<open>height\<close> rows of \<open>width\<close> pixels, the sampler returns, per channel, the
  truncated mean of the pixels of the bounding box clipped to the canvas, and the gray
  (128, 128, 128) when the clipped box holds no pixel, as for radius 0. Every circle that
  \<open>can_place_circle\<close> accepts with a radius that is not negative meets the two conditions.
\<close>

theorem get_avg_color_clipped_box:
  "(well_formed img_np w h \<and> 0 \<le> x + r \<and> 0 \<le> y + r \<longrightarrow>
      get_avg_color img_np w h x y r =
        (let box = clipped_box img_np w h x y r
         in if box = [] then (128, 128, 128)
            else (int (sum_list (map fst box) div length box),
                  int (sum_list (map (fst \<circ> snd) box) div length box),
                  int (sum_list (map (snd \<circ> snd) box) div length box)))) \<and>
   (can_place_circle c placed x y r \<and> 0 \<le> r \<longrightarrow> 0 \<le> x + r \<and> 0 \<le> y + r)"
proof (intro conjI impI)
  assume h: "well_formed img_np w h \<and> 0 \<le> x + r \<and> 0 \<le> y + r"
  then have "concat (map (\<lambda>row. py_slice row (max 0 (x - r)) (min w (x + r)))
           (py_slice img_np (max 0 (y - r)) (min h (y + r)))) = clipped_box img_np w h x y r"
    by (intro region_is_clipped_box) simp_all
  then show "get_avg_color img_np w h x y r =
        (let box = clipped_box img_np w h x y r
         in if box = [] then (128, 128, 128)
            else (int (sum_list (map fst box) div length box),
                  int (sum_list (map (fst \<circ> snd) box) div length box),
                  int (sum_list (map (snd \<circ> snd) box) div length box)))"
    by (simp only: get_avg_color_def Let_def)
next
  assume h: "can_place_circle c placed x y r \<and> 0 \<le> r"
  then have "r \<le> x \<and> r \<le> y" using can_place_circle_bounds [of c placed x y r] by simp
  then show "0 \<le> x + r" and "0 \<le> y + r" using h by simp_all
qed

theorem get_avg_color_clipped_box_witness:
  "well_formed sample_image 3 2 \<and> (0::int) \<le> 1 + 1 \<and> (0::int) \<le> 1 + 0 \<and>
   get_avg_color sample_image 3 2 1 1 1 = (30, 40, 50) \<and>
   get_avg_color sample_image 3 2 1 1 0 = (128, 128, 128) \<and>
   can_place_circle small_config [] 3 3 3 \<and> (0::int) \<le> 3 + 3"
proof -
  have a: "clipped_box sample_image 3 2 1 1 1 = [(10, 20, 30), (20, 30, 40), (40, 50, 60), (50, 60, 71)]"
    by (simp add: clipped_box_def sample_image_def upt_rec)
  have b: "clipped_box sample_image 3 2 1 1 0 = []"
    by (simp add: clipped_box_def sample_image_def)
  have c: "can_place_circle small_config [] 3 3 3"
    by (simp add: can_place_circle_def small_config_def)
  show ?thesis
    using get_avg_color_clipped_box [where img_np = sample_image and w = 3 and h = 2
        and x = 1 and y = 1 and r = 1]
      get_avg_color_clipped_box [where img_np = sample_image and w = 3 and h = 2
        and x = 1 and y = 1 and r = 0]
      get_avg_color_clipped_box [where c = small_config and placed = "[]"
        and x = 3 and y = 3 and r = 3]
      sample_image_well_formed c
    by (simp add: a b)
qed

text \<open>
  The claim as the specification states it fails at its own example: a radius of at least
  the canvas dimension, around a centre inside the canvas, clips to the whole canvas, which
  is averaged. And a box wholly to the left of the canvas has a negative right edge, which
  the array slice counts from the end of the row: the clipped box is empty, the sampled
  region is not.
\<close>

theorem large_radius_is_not_gray:
  "well_formed black_image 2 2 \<and> (2::int) \<le> 5 \<and>
   get_avg_color black_image 2 2 1 1 5 = (0, 0, 0) \<and>
   clipped_box sample_image 3 2 (- 2) 1 1 = [] \<and>
   get_avg_color sample_image 3 2 (- 2) 1 1 = (30, 40, 50)"
  by (simp add: well_formed_def black_image_def sample_image_def get_avg_color_def py_slice_def
      clipped_box_def)

end
